theory Spec2Isabelle
  imports Main "HOL-Library.Multiset" "HOL-Library.Sublist"
begin

section \<open>The to-do store slice\<close>

subsection \<open>Data model\<close>

text \<open>
  The \<^verbatim>\<open>Todo\<close> interface of the slice. The field \<^verbatim>\<open>id\<close> is written \<open>id_todo\<close>
  because \<open>id\<close> is the identity function of HOL. JavaScript strings are compared by value
  (\<^verbatim>\<open>===\<close> in the reducers, SameValueZero in \<^verbatim>\<open>Map\<close>), as HOL strings are.
\<close>

record Todo =
  id_todo :: string
  name :: string
  description :: string
  dueDate :: string
  dueTime :: string
  completed :: bool

datatype SortOption = By_name | By_date | By_time

datatype SortOrder = Asc | Desc

record TodoState =
  todos :: "Todo list"
  searchQuery :: string
  sortBy :: SortOption
  sortOrder :: SortOrder
  isLoading :: bool
  error :: "string option"

definition initialState :: TodoState where
  "initialState =
     \<lparr>todos = [], searchQuery = [], sortBy = By_date, sortOrder = Asc,
      isLoading = False, error = None\<rparr>"

subsection \<open>Array and Map primitives used by the reducers\<close>

text \<open>
  \<^verbatim>\<open>Array.prototype.findIndex\<close>: the index of the first element that satisfies the
  predicate, \<open>-1\<close> when there is none.
\<close>

fun findIndex :: "('a \<Rightarrow> bool) \<Rightarrow> 'a list \<Rightarrow> int" where
  "findIndex p [] = - 1"
| "findIndex p (x # xs) =
     (if p x then 0
      else (let r = findIndex p xs in if r = - 1 then - 1 else r + 1))"

text \<open>
  \<^verbatim>\<open>new Map(entries)\<close> inserts the entries from left to right, a later entry replacing
  an earlier one with the same key; \<^verbatim>\<open>has\<close> tests for a key.
\<close>

definition Map_new :: "('k \<times> 'v) list \<Rightarrow> ('k \<rightharpoonup> 'v)" where
  "Map_new entries = foldl (\<lambda>m (k, v). m(k \<mapsto> v)) Map.empty entries"

definition Map_has :: "('k \<rightharpoonup> 'v) \<Rightarrow> 'k \<Rightarrow> bool" where
  "Map_has m k = (m k \<noteq> None)"

subsection \<open>Reducers\<close>

text \<open>
  Each reducer of \<^verbatim>\<open>createSlice\<close> mutates a draft of the state; the model takes the
  state and the action's payload and returns the next state.
\<close>

definition addTodo :: "TodoState \<Rightarrow> Todo \<Rightarrow> TodoState" where
  "addTodo state payload = state\<lparr>todos := todos state @ [payload]\<rparr>"

definition updateTodo :: "TodoState \<Rightarrow> Todo \<Rightarrow> TodoState" where
  "updateTodo state payload =
     (let index = findIndex (\<lambda>todo. id_todo todo = id_todo payload) (todos state)
      in if index \<noteq> - 1
         then state\<lparr>todos := (todos state)[nat index := payload]\<rparr>
         else state)"

definition deleteTodo :: "TodoState \<Rightarrow> string \<Rightarrow> TodoState" where
  "deleteTodo state payload =
     state\<lparr>todos := filter (\<lambda>todo. id_todo todo \<noteq> payload) (todos state)\<rparr>"

text \<open>
  \<^verbatim>\<open>find\<close> returns the first matching element of the draft array itself, so the
  assignment to its \<^verbatim>\<open>completed\<close> field changes the array at that element's position:
  the position \<^verbatim>\<open>findIndex\<close> gives for the same predicate.
\<close>

definition toggleTodo :: "TodoState \<Rightarrow> string \<Rightarrow> TodoState" where
  "toggleTodo state payload =
     (let index = findIndex (\<lambda>todo. id_todo todo = payload) (todos state)
      in if index \<noteq> - 1
         then (let todo = todos state ! nat index
               in state\<lparr>todos := (todos state)[nat index := todo\<lparr>completed := \<not> completed todo\<rparr>]\<rparr>)
         else state)"

definition setSearchQuery :: "TodoState \<Rightarrow> string \<Rightarrow> TodoState" where
  "setSearchQuery state payload = state\<lparr>searchQuery := payload\<rparr>"

definition setSortBy :: "TodoState \<Rightarrow> SortOption \<Rightarrow> TodoState" where
  "setSortBy state payload = state\<lparr>sortBy := payload\<rparr>"

definition setSortOrder :: "TodoState \<Rightarrow> SortOrder \<Rightarrow> TodoState" where
  "setSortOrder state payload = state\<lparr>sortOrder := payload\<rparr>"

definition setTodos :: "TodoState \<Rightarrow> Todo list \<Rightarrow> TodoState" where
  "setTodos state payload = state\<lparr>todos := payload\<rparr>"

text \<open>
  The lookup map is built once from the collection as it is before the loop; the loop
  pushes onto the collection and never adds to the map.
\<close>

definition mergeTodos :: "TodoState \<Rightarrow> Todo list \<Rightarrow> TodoState" where
  "mergeTodos state payload =
     (let existingTodosMap = Map_new (map (\<lambda>todo. (id_todo todo, todo)) (todos state))
      in foldl (\<lambda>st newTodo.
                  if \<not> Map_has existingTodosMap (id_todo newTodo)
                  then st\<lparr>todos := todos st @ [newTodo]\<rparr>
                  else st)
           state payload)"

definition setLoading :: "TodoState \<Rightarrow> bool \<Rightarrow> TodoState" where
  "setLoading state payload = state\<lparr>isLoading := payload\<rparr>"

definition setError :: "TodoState \<Rightarrow> string option \<Rightarrow> TodoState" where
  "setError state payload = state\<lparr>error := payload\<rparr>"

text \<open>The ids of a collection, in order.\<close>

abbreviation ids :: "Todo list \<Rightarrow> string list" where
  "ids ts \<equiv> map id_todo ts"

subsection \<open>Actions and the slice reducer\<close>

text \<open>The action creators exported by the slice, and the reducer the slice builds from them.\<close>

datatype Action =
    AddTodo Todo
  | UpdateTodo Todo
  | DeleteTodo string
  | ToggleTodo string
  | SetSearchQuery string
  | SetSortBy SortOption
  | SetSortOrder SortOrder
  | SetTodos "Todo list"
  | MergeTodos "Todo list"
  | SetLoading bool
  | SetError "string option"

fun reducer :: "TodoState \<Rightarrow> Action \<Rightarrow> TodoState" where
  "reducer state (AddTodo payload) = addTodo state payload"
| "reducer state (UpdateTodo payload) = updateTodo state payload"
| "reducer state (DeleteTodo payload) = deleteTodo state payload"
| "reducer state (ToggleTodo payload) = toggleTodo state payload"
| "reducer state (SetSearchQuery payload) = setSearchQuery state payload"
| "reducer state (SetSortBy payload) = setSortBy state payload"
| "reducer state (SetSortOrder payload) = setSortOrder state payload"
| "reducer state (SetTodos payload) = setTodos state payload"
| "reducer state (MergeTodos payload) = mergeTodos state payload"
| "reducer state (SetLoading payload) = setLoading state payload"
| "reducer state (SetError payload) = setError state payload"

text \<open>Dispatching a sequence of actions, one after the other.\<close>

definition dispatch_all :: "TodoState \<Rightarrow> Action list \<Rightarrow> TodoState" where
  "dispatch_all state actions = foldl reducer state actions"

text \<open>
  The precondition of the uniqueness invariant: the sequence consists of add, update,
  delete and toggle actions only, and every add carries an id that is not in the
  collection at the moment it is dispatched.
\<close>

fun fresh_crud_action :: "TodoState \<Rightarrow> Action \<Rightarrow> bool" where
  "fresh_crud_action state (AddTodo payload) = (id_todo payload \<notin> set (ids (todos state)))"
| "fresh_crud_action state (UpdateTodo payload) = True"
| "fresh_crud_action state (DeleteTodo payload) = True"
| "fresh_crud_action state (ToggleTodo payload) = True"
| "fresh_crud_action state _ = False"

fun fresh_crud_run :: "TodoState \<Rightarrow> Action list \<Rightarrow> bool" where
  "fresh_crud_run state [] = True"
| "fresh_crud_run state (a # as) =
     (fresh_crud_action state a \<and> fresh_crud_run (reducer state a) as)"

subsection \<open>The remote fetch (todo-api) and its trigger (todo-list-screen)\<close>

text \<open>
  A value thrown by the request: an \<^verbatim>\<open>Error\<close> object with its message, or anything else.
\<close>

datatype Thrown = ErrorObject string | OtherValue

record ApiTodo =
  userId :: int
  id_api :: int
  title :: string
  completed_api :: bool

text \<open>
  \<^verbatim>\<open>Number.prototype.toString\<close> on an integer: its decimal digits, with a minus sign for
  a negative one. This is what JavaScript prints for an integer of magnitude up to \<open>2^53\<close>,
  the range in which a number holds every integer exactly and in which the ids of the
  remote records lie; beyond it JavaScript prints rounded digits or an exponent, which the
  model does not follow.
\<close>

fun digits_of :: "nat \<Rightarrow> string" where
  "digits_of n =
     (if n < 10 then [char_of (48 + n)]
      else digits_of (n div 10) @ [char_of (48 + n mod 10)])"

definition Number_toString :: "int \<Rightarrow> string" where
  "Number_toString n =
     (if n < 0 then CHR ''-'' # digits_of (nat (- n)) else digits_of (nat n))"

text \<open>\<^verbatim>\<open>s.split('T')[0]\<close>: the part of \<open>s\<close> before its first \<open>T\<close>, all of \<open>s\<close> when it has none.\<close>

definition split_T_0 :: "string \<Rightarrow> string" where
  "split_T_0 s = takeWhile (\<lambda>c. c \<noteq> CHR ''T'') s"

text \<open>
  \<^verbatim>\<open>fetchTodos\<close>. The response of \<^verbatim>\<open>axios.get\<close> is an input: the records received, or
  the value thrown, which the \<^verbatim>\<open>catch\<close> block logs and throws again. The clock is an
  input too: \<open>clock i\<close> is what \<^verbatim>\<open>new Date().toISOString()\<close> returns when the callback
  of \<^verbatim>\<open>map\<close> runs on the element at index \<open>i\<close>.
\<close>

definition fetchTodos :: "(nat \<Rightarrow> string) \<Rightarrow> Thrown + ApiTodo list \<Rightarrow> Thrown + Todo list" where
  "fetchTodos clock response =
     (case response of
        Inl err \<Rightarrow> Inl err
      | Inr data \<Rightarrow>
          Inr (map (\<lambda>(i, todo).
                 \<lparr>id_todo = Number_toString (id_api todo),
                  name = title todo,
                  description = [],
                  dueDate = split_T_0 (clock i),
                  dueTime = ''00:00'',
                  completed = completed_api todo\<rparr>)
               (enumerate 0 data)))"

text \<open>The shape \<^verbatim>\<open>HH:MM:SS\<close>: eight characters, digits around two colons.\<close>

definition is_digit :: "char \<Rightarrow> bool" where
  "is_digit c = (48 \<le> (of_char c :: nat) \<and> (of_char c :: nat) \<le> 57)"

fun is_HH_MM_SS :: "string \<Rightarrow> bool" where
  "is_HH_MM_SS [h1, h2, c1, m1, m2, c2, s1, s2] =
     (is_digit h1 \<and> is_digit h2 \<and> c1 = CHR '':'' \<and> is_digit m1 \<and> is_digit m2
      \<and> c2 = CHR '':'' \<and> is_digit s1 \<and> is_digit s2)"
| "is_HH_MM_SS _ = False"

text \<open>
  \<^verbatim>\<open>handleFetchTodos\<close>. The message the \<^verbatim>\<open>catch\<close> block stores:
  \<^verbatim>\<open>err instanceof Error ? err.message : 'Failed to fetch todos'\<close>.
\<close>

fun caught_message :: "Thrown \<Rightarrow> string" where
  "caught_message (ErrorObject message) = message"
| "caught_message OtherValue = ''Failed to fetch todos''"

text \<open>
  The handler dispatches two actions, awaits the fetch, and dispatches two more: the
  merge when the fetch resolved or the error when it threw, and then, in the
  \<^verbatim>\<open>finally\<close> block, the end of loading.
\<close>

definition handleFetchTodos_before :: "Action list" where
  "handleFetchTodos_before = [SetLoading True, SetError None]"

fun handleFetchTodos_after :: "Thrown + Todo list \<Rightarrow> Action list" where
  "handleFetchTodos_after (Inr fetchedTodos) = [MergeTodos fetchedTodos, SetLoading False]"
| "handleFetchTodos_after (Inl err) = [SetError (Some (caught_message err)), SetLoading False]"

definition handleFetchTodos_dispatches :: "Thrown + Todo list \<Rightarrow> Action list" where
  "handleFetchTodos_dispatches outcome = handleFetchTodos_before @ handleFetchTodos_after outcome"

text \<open>The handler run on a state, with nothing else dispatched while it waits.\<close>

definition handleFetchTodos :: "TodoState \<Rightarrow> Thrown + Todo list \<Rightarrow> TodoState" where
  "handleFetchTodos state outcome = dispatch_all state (handleFetchTodos_dispatches outcome)"

text \<open>
  The handler run on a state while other parts of the application dispatch the actions
  \<open>others\<close> during the wait.
\<close>

definition handleFetchTodos_during :: "TodoState \<Rightarrow> Action list \<Rightarrow> Thrown + Todo list \<Rightarrow> TodoState" where
  "handleFetchTodos_during state others outcome =
     dispatch_all (dispatch_all (dispatch_all state handleFetchTodos_before) others)
       (handleFetchTodos_after outcome)"

subsection \<open>The filter step of the derived view (todo-list-screen)\<close>




text \<open>
  What the filter is meant to test. Case is ignored by comparing lower-cased forms: a
  field contains the query up to case when the lower-cased query occurs, as a contiguous
  run of characters, somewhere in the lower-cased field.
\<close>

definition contains_ignoring_case :: "(string \<Rightarrow> string) \<Rightarrow> string \<Rightarrow> string \<Rightarrow> bool" where
  "contains_ignoring_case toLowerCase field query =
     (\<exists>pre post. toLowerCase field = pre @ toLowerCase query @ post)"


subsection \<open>Sample data\<close>

definition milk :: Todo where
  "milk = \<lparr>id_todo = ''1'', name = ''Buy milk'', description = ''2%'',
           dueDate = ''2024-01-01'', dueTime = ''09:00:00'', completed = False\<rparr>"

definition bread :: Todo where
  "bread = \<lparr>id_todo = ''2'', name = ''Buy bread'', description = ''Rye'',
            dueDate = ''2024-01-02'', dueTime = ''10:30:00'', completed = True\<rparr>"

definition bread_again :: Todo where
  "bread_again = \<lparr>id_todo = ''2'', name = ''Buy more bread'', description = ''Wheat'',
                  dueDate = ''2024-01-03'', dueTime = ''11:00:00'', completed = False\<rparr>"

definition tea :: Todo where
  "tea = \<lparr>id_todo = ''3'', name = ''Make Tea'', description = ''Green'',
          dueDate = ''2024-02-01'', dueTime = ''16:00:00'', completed = False\<rparr>"

definition milk_remote :: Todo where
  "milk_remote = \<lparr>id_todo = ''1'', name = ''delectus aut autem'', description = [],
                  dueDate = ''2024-03-01'', dueTime = ''00:00'', completed = False\<rparr>"

definition store_of :: "Todo list \<Rightarrow> TodoState" where
  "store_of ts = initialState\<lparr>todos := ts\<rparr>"



section \<open>Properties of the primitives\<close>

lemma findIndex_range: "- 1 \<le> findIndex p xs \<and> findIndex p xs < int (length xs)"
  by (induction xs) (auto simp: Let_def)

lemma findIndex_none: "findIndex p xs = - 1 \<longleftrightarrow> (\<forall>x \<in> set xs. \<not> p x)"
proof (induction xs)
  case Nil
  show ?case by simp
next
  case (Cons x xs)
  have "- 1 \<le> findIndex p xs" using findIndex_range [of p xs] by simp
  then have "findIndex p xs + 1 \<noteq> - 1" by arith
  with Cons show ?case by (auto simp: Let_def)
qed

lemma findIndex_first:
  assumes "k < length xs" and "p (xs ! k)" and "\<forall>j < k. \<not> p (xs ! j)"
  shows "findIndex p xs = int k"
  using assms
proof (induction xs arbitrary: k)
  case Nil
  then show ?case by simp
next
  case (Cons x xs)
  show ?case
  proof (cases k)
    case 0
    with Cons.prems show ?thesis by simp
  next
    case (Suc m)
    have nx: "\<not> p x" using Cons.prems(3) Suc by fastforce
    have "\<forall>j < m. \<not> p (xs ! j)"
    proof (intro allI impI)
      fix j assume "j < m"
      then have "Suc j < k" using Suc by simp
      then have "\<not> p ((x # xs) ! Suc j)" using Cons.prems(3) by blast
      then show "\<not> p (xs ! j)" by simp
    qed
    moreover have "m < length xs" and "p (xs ! m)" using Cons.prems Suc by auto
    ultimately have "findIndex p xs = int m" by (rule Cons.IH [rotated 2])
    with nx Suc show ?thesis by (simp add: Let_def)
  qed
qed

lemma findIndex_found:
  assumes "findIndex p xs \<noteq> - 1"
  shows "nat (findIndex p xs) < length xs \<and> p (xs ! nat (findIndex p xs))
         \<and> (\<forall>j < nat (findIndex p xs). \<not> p (xs ! j))"
  using assms
proof (induction xs)
  case Nil
  then show ?case by simp
next
  case (Cons x xs)
  show ?case
  proof (cases "p x")
    case True
    then show ?thesis by simp
  next
    case False
    with Cons.prems have r: "findIndex p xs \<noteq> - 1" by (auto simp: Let_def)
    have ge: "0 \<le> findIndex p xs" using findIndex_range [of p xs] r by arith
    have eq: "findIndex p (x # xs) = findIndex p xs + 1" using False r by (simp add: Let_def)
    have n: "nat (findIndex p xs + 1) = Suc (nat (findIndex p xs))" using ge by simp
    from Cons.IH [OF r] have ih1: "nat (findIndex p xs) < length xs"
      and ih2: "p (xs ! nat (findIndex p xs))"
      and ih3: "\<forall>j < nat (findIndex p xs). \<not> p (xs ! j)" by auto
    have "\<forall>j < Suc (nat (findIndex p xs)). \<not> p ((x # xs) ! j)"
    proof (intro allI impI)
      fix j assume j: "j < Suc (nat (findIndex p xs))"
      show "\<not> p ((x # xs) ! j)"
      proof (cases j)
        case 0
        with False show ?thesis by simp
      next
        case (Suc i)
        with j ih3 show ?thesis by simp
      qed
    qed
    with ih1 ih2 show ?thesis unfolding eq n by simp
  qed
qed


section \<open>Updating and toggling\<close>


text \<open>
  C3. \<^verbatim>\<open>updateTodo\<close> with payload \<open>t\<close> replaces the first entry whose id is the id of
  \<open>t\<close> by \<open>t\<close>, at the position \<open>k\<close> of that entry: the collection keeps its length, holds
  \<open>t\<close> at \<open>k\<close> and is unchanged at every other position, and no other field of the state
  changes. When no entry has that id the resulting state is the input state.
\<close>

theorem updateTodo_replaces_first_or_noop:
  "(\<forall>k. k < length (todos s) \<and> id_todo (todos s ! k) = id_todo t
        \<and> (\<forall>j < k. id_todo (todos s ! j) \<noteq> id_todo t)
      \<longrightarrow> updateTodo s t = s\<lparr>todos := (todos s)[k := t]\<rparr>
        \<and> length (todos (updateTodo s t)) = length (todos s)
        \<and> todos (updateTodo s t) ! k = t
        \<and> (\<forall>j < length (todos s). j \<noteq> k \<longrightarrow> todos (updateTodo s t) ! j = todos s ! j))
   \<and> (id_todo t \<notin> set (ids (todos s)) \<longrightarrow> updateTodo s t = s)"
proof -
  have upd: "updateTodo s t = s\<lparr>todos := (todos s)[k := t]\<rparr>"
    if "k < length (todos s)" and "id_todo (todos s ! k) = id_todo t"
      and "\<forall>j < k. id_todo (todos s ! j) \<noteq> id_todo t" for k
  proof -
    have "findIndex (\<lambda>todo. id_todo todo = id_todo t) (todos s) = int k"
      using that by (intro findIndex_first) simp_all
    then show ?thesis by (simp add: updateTodo_def)
  qed
  have noop: "updateTodo s t = s" if "id_todo t \<notin> set (ids (todos s))"
  proof -
    from that have "\<forall>x \<in> set (todos s). \<not> id_todo x = id_todo t"
      by (metis image_eqI set_map)
    then have "findIndex (\<lambda>todo. id_todo todo = id_todo t) (todos s) = - 1"
      by (simp add: findIndex_none)
    then show ?thesis by (simp add: updateTodo_def)
  qed
  show ?thesis
  proof (rule conjI)
    show "id_todo t \<notin> set (ids (todos s)) \<longrightarrow> updateTodo s t = s"
      using noop by blast
  next
    show "\<forall>k. k < length (todos s) \<and> id_todo (todos s ! k) = id_todo t
        \<and> (\<forall>j < k. id_todo (todos s ! j) \<noteq> id_todo t)
      \<longrightarrow> updateTodo s t = s\<lparr>todos := (todos s)[k := t]\<rparr>
        \<and> length (todos (updateTodo s t)) = length (todos s)
        \<and> todos (updateTodo s t) ! k = t
        \<and> (\<forall>j < length (todos s). j \<noteq> k \<longrightarrow> todos (updateTodo s t) ! j = todos s ! j)"
    proof (intro allI impI)
      fix k
      assume h: "k < length (todos s) \<and> id_todo (todos s ! k) = id_todo t
        \<and> (\<forall>j < k. id_todo (todos s ! j) \<noteq> id_todo t)"
      then have u: "updateTodo s t = s\<lparr>todos := (todos s)[k := t]\<rparr>"
        using upd [of k] by blast
      from h have "k < length (todos s)" by blast
      then show "updateTodo s t = s\<lparr>todos := (todos s)[k := t]\<rparr>
        \<and> length (todos (updateTodo s t)) = length (todos s)
        \<and> todos (updateTodo s t) ! k = t
        \<and> (\<forall>j < length (todos s). j \<noteq> k \<longrightarrow> todos (updateTodo s t) ! j = todos s ! j)"
        by (simp add: u)
    qed
  qed
qed

theorem updateTodo_replaces_first_or_noop_witness:
  "updateTodo (store_of [milk, bread, bread_again]) (tea\<lparr>id_todo := ''2''\<rparr>)
     = store_of [milk, (tea\<lparr>id_todo := ''2''\<rparr>), bread_again]
   \<and> id_todo tea \<notin> set (ids [milk, bread])
   \<and> updateTodo (store_of [milk, bread]) tea = store_of [milk, bread]"
  using updateTodo_replaces_first_or_noop [of "store_of [milk, bread, bread_again]" "(tea\<lparr>id_todo := ''2''\<rparr>)",
      THEN conjunct1, rule_format, of 1]
    updateTodo_replaces_first_or_noop [of "store_of [milk, bread]" tea, THEN conjunct2]
  by (simp add: store_of_def initialState_def milk_def bread_def bread_again_def tea_def)


section \<open>Merging\<close>

text \<open>
  The lookup map has a key exactly for the ids of the collection it was built from, and
  the loop appends the incoming entities that pass the test, in their order.
\<close>

lemma Map_has_Map_new_aux:
  "foldl (\<lambda>m (k, v). m(k \<mapsto> v)) m0 (map (\<lambda>x. (f x, x)) xs) k \<noteq> None
     \<longleftrightarrow> m0 k \<noteq> None \<or> k \<in> f ` set xs"
  by (induction xs arbitrary: m0) auto

lemma Map_has_existing:
  "Map_has (Map_new (map (\<lambda>todo. (id_todo todo, todo)) xs)) k \<longleftrightarrow> k \<in> set (ids xs)"
  unfolding Map_has_def Map_new_def Map_has_Map_new_aux by simp

lemma foldl_push_if:
  "foldl (\<lambda>st x. if P x then st\<lparr>todos := todos st @ [x]\<rparr> else st) s xs
     = s\<lparr>todos := todos s @ filter P xs\<rparr>"
  by (induction xs arbitrary: s) auto

lemma mergeTodos_eq:
  "mergeTodos s incoming =
     s\<lparr>todos := todos s @ filter (\<lambda>t. id_todo t \<notin> set (ids (todos s))) incoming\<rparr>"
  unfolding mergeTodos_def Let_def Map_has_existing by (rule foldl_push_if)


lemma todos_mergeTodos:
  "todos (mergeTodos s incoming) =
     todos s @ filter (\<lambda>t. id_todo t \<notin> set (ids (todos s))) incoming"
  by (simp add: mergeTodos_eq)

text \<open>
  C1. \<^verbatim>\<open>mergeTodos\<close> appends exactly the incoming entities whose id no entity of the
  pre-merge collection has, in the order of the incoming sequence (the appended part is a
  subsequence of it), and changes no other field of the state. Every pre-merge entity
  stays at its position, and for an id that is present locally the entities with that id
  after the merge are those before it, whatever the incoming sequence holds for that id.
\<close>

theorem mergeTodos_appends_new_ids_in_order:
  "todos (mergeTodos s incoming)
     = todos s @ filter (\<lambda>t. id_todo t \<notin> set (ids (todos s))) incoming
   \<and> mergeTodos s incoming = s\<lparr>todos := todos (mergeTodos s incoming)\<rparr>
   \<and> (\<forall>k < length (todos s). todos (mergeTodos s incoming) ! k = todos s ! k)
   \<and> (\<forall>i \<in> set (ids (todos s)).
         filter (\<lambda>x. id_todo x = i) (todos (mergeTodos s incoming))
           = filter (\<lambda>x. id_todo x = i) (todos s))
   \<and> subseq (drop (length (todos s)) (todos (mergeTodos s incoming))) incoming"
proof (intro conjI)
  show "todos (mergeTodos s incoming)
     = todos s @ filter (\<lambda>t. id_todo t \<notin> set (ids (todos s))) incoming"
    by (rule todos_mergeTodos)
  show "mergeTodos s incoming = s\<lparr>todos := todos (mergeTodos s incoming)\<rparr>"
    by (simp add: mergeTodos_eq)
  show "\<forall>k < length (todos s). todos (mergeTodos s incoming) ! k = todos s ! k"
    by (simp add: todos_mergeTodos nth_append)
  show "\<forall>i \<in> set (ids (todos s)).
         filter (\<lambda>x. id_todo x = i) (todos (mergeTodos s incoming))
           = filter (\<lambda>x. id_todo x = i) (todos s)"
  proof
    fix i assume "i \<in> set (ids (todos s))"
    then have "filter (\<lambda>x. id_todo x = i)
                 (filter (\<lambda>t. id_todo t \<notin> set (ids (todos s))) incoming) = []"
      by (auto simp: filter_empty_conv)
    then show "filter (\<lambda>x. id_todo x = i) (todos (mergeTodos s incoming))
                 = filter (\<lambda>x. id_todo x = i) (todos s)"
      by (simp add: todos_mergeTodos)
  qed
  show "subseq (drop (length (todos s)) (todos (mergeTodos s incoming))) incoming"
    by (simp add: todos_mergeTodos)
qed

theorem mergeTodos_appends_new_ids_in_order_witness:
  "todos (mergeTodos (store_of [milk, bread]) [milk_remote, tea, bread_again]) = [milk, bread, tea]
   \<and> (1::nat) < length (todos (store_of [milk, bread]))
   \<and> todos (mergeTodos (store_of [milk, bread]) [milk_remote, tea, bread_again]) ! 1 = bread
   \<and> ''1'' \<in> set (ids (todos (store_of [milk, bread])))
   \<and> filter (\<lambda>x. id_todo x = ''1'')
        (todos (mergeTodos (store_of [milk, bread]) [milk_remote, tea, bread_again])) = [milk]"
  using mergeTodos_appends_new_ids_in_order
    [of "store_of [milk, bread]" "[milk_remote, tea, bread_again]"]
  by (simp add: store_of_def initialState_def milk_def bread_def bread_again_def tea_def
      milk_remote_def)

text \<open>
  C5. Merging the same incoming sequence a second time changes nothing: every incoming id
  is in the collection after the first merge.
\<close>

theorem mergeTodos_idempotent: "mergeTodos (mergeTodos s A) A = mergeTodos s A"
proof -
  have "filter (\<lambda>t. id_todo t \<notin> set (ids (todos (mergeTodos s A)))) A = []"
    unfolding filter_empty_conv todos_mergeTodos by auto
  then have "todos (mergeTodos (mergeTodos s A) A) = todos (mergeTodos s A)"
    using todos_mergeTodos [of "mergeTodos s A" A] by simp
  then show ?thesis
    using mergeTodos_eq [of "mergeTodos s A" A] by simp
qed

section \<open>Two merges\<close>

lemma ids_mergeTodos:
  "set (ids (todos (mergeTodos s A))) = set (ids (todos s)) \<union> set (ids A)"
  by (auto simp: todos_mergeTodos)

lemma todos_mergeTodos_twice:
  "todos (mergeTodos (mergeTodos s A) B)
     = todos s @ filter (\<lambda>t. id_todo t \<notin> set (ids (todos s))) A
         @ filter (\<lambda>t. id_todo t \<notin> set (ids (todos s)) \<and> id_todo t \<notin> set (ids A)) B"
proof -
  have e: "(\<lambda>t. id_todo t \<notin> set (ids (todos (mergeTodos s A))))
          = (\<lambda>t. id_todo t \<notin> set (ids (todos s)) \<and> id_todo t \<notin> set (ids A))"
    by (simp only: ids_mergeTodos Un_iff de_Morgan_disj)
  have "todos (mergeTodos (mergeTodos s A) B)
          = todos (mergeTodos s A)
              @ filter (\<lambda>t. id_todo t \<notin> set (ids (todos (mergeTodos s A)))) B"
    by (rule todos_mergeTodos)
  also have "\<dots> = todos (mergeTodos s A)
              @ filter (\<lambda>t. id_todo t \<notin> set (ids (todos s)) \<and> id_todo t \<notin> set (ids A)) B"
    by (simp only: e)
  also have "\<dots> = todos s @ filter (\<lambda>t. id_todo t \<notin> set (ids (todos s))) A
              @ filter (\<lambda>t. id_todo t \<notin> set (ids (todos s)) \<and> id_todo t \<notin> set (ids A)) B"
    by (simp only: todos_mergeTodos append_assoc)
  finally show ?thesis .
qed

text \<open>
  C6, as stated, fails. With \<open>bread\<close> in the store, merging \<open>[milk, tea]\<close> and then
  \<open>[milk_remote]\<close> keeps the entity \<open>milk\<close> for the id \<open>1\<close>; merging in the other order
  keeps \<open>milk_remote\<close> for that id. The two collections differ as sequences and as sets.
\<close>

theorem mergeTodos_not_commutative_counterexample:
  "todos (mergeTodos (mergeTodos (store_of [bread]) [milk, tea]) [milk_remote]) = [bread, milk, tea]
   \<and> todos (mergeTodos (mergeTodos (store_of [bread]) [milk_remote]) [milk, tea]) = [bread, milk_remote, tea]
   \<and> todos (mergeTodos (mergeTodos (store_of [bread]) [milk, tea]) [milk_remote])
       \<noteq> todos (mergeTodos (mergeTodos (store_of [bread]) [milk_remote]) [milk, tea])
   \<and> milk \<in> set (todos (mergeTodos (mergeTodos (store_of [bread]) [milk, tea]) [milk_remote]))
   \<and> milk \<notin> set (todos (mergeTodos (mergeTodos (store_of [bread]) [milk_remote]) [milk, tea]))"
  by (simp add: todos_mergeTodos store_of_def initialState_def milk_def bread_def tea_def
      milk_remote_def)

text \<open>
  C6, amended. After merging \<open>A\<close> and then \<open>B\<close> the collection is the pre-merge
  collection, then the entities of \<open>A\<close> with an id new to the store, then the entities of
  \<open>B\<close> with an id new to the store and to \<open>A\<close>: for an id that both sequences bring, the
  sequence merged first wins. The set of ids does not depend on the order of the two
  merges. When no id outside the store occurs in both \<open>A\<close> and \<open>B\<close>, the two orders give
  the same entities with the same multiplicities, the appended ones in a different order.
\<close>

theorem mergeTodos_commute_up_to_order:
  "todos (mergeTodos (mergeTodos s A) B)
     = todos s @ filter (\<lambda>t. id_todo t \<notin> set (ids (todos s))) A
         @ filter (\<lambda>t. id_todo t \<notin> set (ids (todos s)) \<and> id_todo t \<notin> set (ids A)) B
   \<and> set (ids (todos (mergeTodos (mergeTodos s A) B)))
       = set (ids (todos (mergeTodos (mergeTodos s B) A)))
   \<and> ((\<forall>a \<in> set A. \<forall>b \<in> set B. id_todo a = id_todo b \<longrightarrow> id_todo a \<in> set (ids (todos s)))
        \<longrightarrow> mset (todos (mergeTodos (mergeTodos s A) B))
            = mset (todos (mergeTodos (mergeTodos s B) A)))"
proof (intro conjI impI)
  show "todos (mergeTodos (mergeTodos s A) B)
     = todos s @ filter (\<lambda>t. id_todo t \<notin> set (ids (todos s))) A
         @ filter (\<lambda>t. id_todo t \<notin> set (ids (todos s)) \<and> id_todo t \<notin> set (ids A)) B"
    by (rule todos_mergeTodos_twice)
  show "set (ids (todos (mergeTodos (mergeTodos s A) B)))
       = set (ids (todos (mergeTodos (mergeTodos s B) A)))"
    unfolding ids_mergeTodos by auto
next
  assume disj: "\<forall>a \<in> set A. \<forall>b \<in> set B. id_todo a = id_todo b \<longrightarrow> id_todo a \<in> set (ids (todos s))"
  have fA: "filter (\<lambda>t. id_todo t \<notin> set (ids (todos s)) \<and> id_todo t \<notin> set (ids B)) A
            = filter (\<lambda>t. id_todo t \<notin> set (ids (todos s))) A"
  proof (rule filter_cong [OF refl])
    fix a assume a: "a \<in> set A"
    have "id_todo a \<notin> set (ids B)" if "id_todo a \<notin> set (ids (todos s))"
    proof
      assume "id_todo a \<in> set (ids B)"
      then obtain b :: Todo where "b \<in> set B" and "id_todo a = id_todo b" by auto
      with disj a that show False by blast
    qed
    then show "(id_todo a \<notin> set (ids (todos s)) \<and> id_todo a \<notin> set (ids B))
                = (id_todo a \<notin> set (ids (todos s)))" by blast
  qed
  have fB: "filter (\<lambda>t. id_todo t \<notin> set (ids (todos s)) \<and> id_todo t \<notin> set (ids A)) B
            = filter (\<lambda>t. id_todo t \<notin> set (ids (todos s))) B"
  proof (rule filter_cong [OF refl])
    fix b assume b: "b \<in> set B"
    have "id_todo b \<notin> set (ids A)" if "id_todo b \<notin> set (ids (todos s))"
    proof
      assume "id_todo b \<in> set (ids A)"
      then obtain a :: Todo where "a \<in> set A" and "id_todo a = id_todo b" by auto
      with disj b that show False by metis
    qed
    then show "(id_todo b \<notin> set (ids (todos s)) \<and> id_todo b \<notin> set (ids A))
                = (id_todo b \<notin> set (ids (todos s)))" by blast
  qed
  show "mset (todos (mergeTodos (mergeTodos s A) B))
            = mset (todos (mergeTodos (mergeTodos s B) A))"
    unfolding todos_mergeTodos_twice fA fB by simp
qed

theorem mergeTodos_commute_up_to_order_witness:
  "todos (mergeTodos (mergeTodos (store_of [milk]) [milk_remote, tea]) [milk, bread_again])
       = [milk, tea, bread_again]
   \<and> todos (mergeTodos (mergeTodos (store_of [milk]) [milk, bread_again]) [milk_remote, tea])
       = [milk, bread_again, tea]
   \<and> mset (todos (mergeTodos (mergeTodos (store_of [milk]) [milk_remote, tea]) [milk, bread_again]))
       = mset (todos (mergeTodos (mergeTodos (store_of [milk]) [milk, bread_again]) [milk_remote, tea]))"
proof -
  have h: "\<forall>a \<in> set [milk_remote, tea]. \<forall>b \<in> set [milk, bread_again].
       id_todo a = id_todo b \<longrightarrow> id_todo a \<in> set (ids (todos (store_of [milk])))"
    by (simp add: store_of_def initialState_def milk_def bread_again_def tea_def milk_remote_def)
  have v1: "todos (mergeTodos (mergeTodos (store_of [milk]) [milk_remote, tea]) [milk, bread_again])
       = [milk, tea, bread_again]"
    using mergeTodos_commute_up_to_order
      [of "store_of [milk]" "[milk_remote, tea]" "[milk, bread_again]", THEN conjunct1]
    by (simp add: store_of_def initialState_def milk_def bread_again_def tea_def milk_remote_def)
  have v2: "todos (mergeTodos (mergeTodos (store_of [milk]) [milk, bread_again]) [milk_remote, tea])
       = [milk, bread_again, tea]"
    using mergeTodos_commute_up_to_order
      [of "store_of [milk]" "[milk, bread_again]" "[milk_remote, tea]", THEN conjunct1]
    by (simp add: store_of_def initialState_def milk_def bread_again_def tea_def milk_remote_def)
  have m: "mset (todos (mergeTodos (mergeTodos (store_of [milk]) [milk_remote, tea]) [milk, bread_again]))
       = mset (todos (mergeTodos (mergeTodos (store_of [milk]) [milk, bread_again]) [milk_remote, tea]))"
    using mergeTodos_commute_up_to_order
      [of "store_of [milk]" "[milk_remote, tea]" "[milk, bread_again]"] h
    by blast
  from v1 v2 m show ?thesis by blast
qed

section \<open>Duplicate ids in the incoming sequence\<close>

text \<open>
  C10. The membership test of \<^verbatim>\<open>mergeTodos\<close> looks at the ids of the pre-merge collection
  only. Two incoming entities that share an id the store does not have are therefore both
  appended, and the collection then holds that id twice. The ids are pairwise distinct after
  the merge exactly when they were before it and the appended entities have pairwise distinct
  ids; in particular when the store's ids and the incoming ids are each pairwise distinct.
\<close>

theorem mergeTodos_duplicate_incoming_ids:
  "todos (mergeTodos s incoming)
     = todos s @ filter (\<lambda>t. id_todo t \<notin> set (ids (todos s))) incoming
   \<and> (\<forall>a b :: Todo. id_todo a = id_todo b \<and> id_todo a \<notin> set (ids (todos s))
        \<longrightarrow> todos (mergeTodos s [a, b]) = todos s @ [a, b]
          \<and> \<not> distinct (ids (todos (mergeTodos s [a, b]))))
   \<and> (distinct (ids (todos (mergeTodos s incoming)))
        \<longleftrightarrow> distinct (ids (todos s))
          \<and> distinct (ids (filter (\<lambda>t. id_todo t \<notin> set (ids (todos s))) incoming)))
   \<and> (distinct (ids (todos s)) \<and> distinct (ids incoming)
        \<longrightarrow> distinct (ids (todos (mergeTodos s incoming))))"
proof (intro conjI allI impI)
  show "todos (mergeTodos s incoming)
     = todos s @ filter (\<lambda>t. id_todo t \<notin> set (ids (todos s))) incoming"
    by (rule todos_mergeTodos)
next
  fix a b :: Todo
  assume h: "id_todo a = id_todo b \<and> id_todo a \<notin> set (ids (todos s))"
  then have "filter (\<lambda>t. id_todo t \<notin> set (ids (todos s))) [a, b] = [a, b]"
    by auto
  then have ab: "todos (mergeTodos s [a, b]) = todos s @ [a, b]"
    by (simp only: todos_mergeTodos)
  show "todos (mergeTodos s [a, b]) = todos s @ [a, b]" by (rule ab)
  show "\<not> distinct (ids (todos (mergeTodos s [a, b])))"
    unfolding ab using h by simp
next
  show iff: "distinct (ids (todos (mergeTodos s incoming)))
        \<longleftrightarrow> distinct (ids (todos s))
          \<and> distinct (ids (filter (\<lambda>t. id_todo t \<notin> set (ids (todos s))) incoming))"
  proof -
    have "set (ids (todos s))
            \<inter> set (ids (filter (\<lambda>t. id_todo t \<notin> set (ids (todos s))) incoming)) = {}"
    proof -
      have False
        if a: "x \<in> set (ids (todos s))"
          and b: "x \<in> set (ids (filter (\<lambda>t. id_todo t \<notin> set (ids (todos s))) incoming))"
        for x
      proof -
        from b obtain t :: Todo where "x = id_todo t" and "id_todo t \<notin> set (ids (todos s))"
          by auto
        with a show False by simp
      qed
      then show ?thesis by blast
    qed
    then show ?thesis
      unfolding todos_mergeTodos map_append distinct_append by blast
  qed
  assume "distinct (ids (todos s)) \<and> distinct (ids incoming)"
  then show "distinct (ids (todos (mergeTodos s incoming)))"
    unfolding iff by (simp add: distinct_map_filter)
qed

theorem mergeTodos_duplicate_incoming_ids_witness:
  "id_todo bread = id_todo bread_again \<and> id_todo bread \<notin> set (ids (todos (store_of [milk])))
   \<and> todos (mergeTodos (store_of [milk]) [bread, bread_again]) = [milk, bread, bread_again]
   \<and> \<not> distinct (ids (todos (mergeTodos (store_of [milk]) [bread, bread_again])))
   \<and> distinct (ids (todos (store_of [milk]))) \<and> distinct (ids [bread, tea])
   \<and> distinct (ids (todos (mergeTodos (store_of [milk]) [bread, tea])))"
proof -
  have h1: "id_todo bread = id_todo bread_again \<and> id_todo bread \<notin> set (ids (todos (store_of [milk])))"
    by (simp add: store_of_def initialState_def milk_def bread_def bread_again_def)
  have h2: "distinct (ids (todos (store_of [milk]))) \<and> distinct (ids [bread, tea])"
    by (simp add: store_of_def initialState_def milk_def bread_def tea_def)
  have r1: "todos (mergeTodos (store_of [milk]) [bread, bread_again]) = todos (store_of [milk]) @ [bread, bread_again]
            \<and> \<not> distinct (ids (todos (mergeTodos (store_of [milk]) [bread, bread_again])))"
    using mergeTodos_duplicate_incoming_ids [of "store_of [milk]" "[]"] h1 by blast
  have r2: "distinct (ids (todos (mergeTodos (store_of [milk]) [bread, tea])))"
    using mergeTodos_duplicate_incoming_ids [of "store_of [milk]" "[bread, tea]"] h2 by blast
  have t: "todos (store_of [milk]) = [milk]" by (simp add: store_of_def)
  from r1 have r1': "todos (mergeTodos (store_of [milk]) [bread, bread_again]) = [milk, bread, bread_again]"
    by (simp add: t)
  from h1 h2 r1 r1' r2 show ?thesis by blast
qed

section \<open>Uniqueness of ids under add, update, delete and toggle\<close>

text \<open>
  An update writes an entity with the id it searched for, a toggle changes one flag, and
  a delete removes entries: none of them brings a new id.
\<close>

lemma ids_updateTodo: "ids (todos (updateTodo s t)) = ids (todos s)"
proof (cases "findIndex (\<lambda>todo. id_todo todo = id_todo t) (todos s) = - 1")
  case True
  then show ?thesis by (simp add: updateTodo_def)
next
  case False
  from findIndex_found [OF False]
  have "nat (findIndex (\<lambda>todo. id_todo todo = id_todo t) (todos s)) < length (todos s)"
    and "id_todo (todos s ! nat (findIndex (\<lambda>todo. id_todo todo = id_todo t) (todos s))) = id_todo t"
    by auto
  then show ?thesis
    using False by (simp add: updateTodo_def Let_def map_update list_update_same_conv)
qed

lemma ids_toggleTodo: "ids (todos (toggleTodo s i)) = ids (todos s)"
proof (cases "findIndex (\<lambda>todo. id_todo todo = i) (todos s) = - 1")
  case True
  then show ?thesis by (simp add: toggleTodo_def)
next
  case False
  from findIndex_found [OF False]
  have "nat (findIndex (\<lambda>todo. id_todo todo = i) (todos s)) < length (todos s)"
    by auto
  then show ?thesis
    using False by (simp add: toggleTodo_def Let_def map_update list_update_same_conv)
qed

lemma distinct_ids_deleteTodo:
  "distinct (ids (todos s)) \<Longrightarrow> distinct (ids (todos (deleteTodo s i)))"
  by (simp add: deleteTodo_def distinct_map_filter)

lemma distinct_ids_step:
  "distinct (ids (todos s)) \<Longrightarrow> fresh_crud_action s a \<Longrightarrow> distinct (ids (todos (reducer s a)))"
  by (cases a) (simp_all add: addTodo_def ids_updateTodo ids_toggleTodo distinct_ids_deleteTodo)

lemma distinct_ids_run:
  "distinct (ids (todos s)) \<Longrightarrow> fresh_crud_run s as
     \<Longrightarrow> distinct (ids (todos (dispatch_all s as)))"
proof (induction as arbitrary: s)
  case Nil
  then show ?case by (simp add: dispatch_all_def)
next
  case (Cons a as)
  from Cons.prems have "distinct (ids (todos (reducer s a)))" and "fresh_crud_run (reducer s a) as"
    by (simp_all add: distinct_ids_step)
  then have "distinct (ids (todos (dispatch_all (reducer s a) as)))" by (rule Cons.IH)
  then show ?case by (simp add: dispatch_all_def)
qed

lemma fresh_crud_run_take:
  "fresh_crud_run s as \<Longrightarrow> fresh_crud_run s (take n as)"
proof (induction as arbitrary: s n)
  case Nil
  then show ?case by simp
next
  case (Cons a as)
  then show ?case by (cases n) simp_all
qed

text \<open>
  C2. Starting from a store whose ids are pairwise distinct (the empty initial store is
  one), after every prefix of a sequence of add, update, delete and toggle actions in which
  each add carries an id that the store does not hold at that moment, the ids of the
  collection are pairwise distinct.
\<close>

theorem crud_keeps_ids_unique:
  assumes "distinct (ids (todos s))" and "fresh_crud_run s as"
  shows "\<forall>n \<le> length as. distinct (ids (todos (dispatch_all s (take n as))))"
  using assms by (simp add: distinct_ids_run fresh_crud_run_take)

theorem crud_keeps_ids_unique_witness:
  "distinct (ids (todos initialState))
   \<and> fresh_crud_run initialState
        [AddTodo milk, AddTodo bread, ToggleTodo ''1'', UpdateTodo bread_again, DeleteTodo ''1'',
         AddTodo milk_remote, UpdateTodo tea]
   \<and> todos (dispatch_all initialState
        [AddTodo milk, AddTodo bread, ToggleTodo ''1'', UpdateTodo bread_again, DeleteTodo ''1'',
         AddTodo milk_remote, UpdateTodo tea]) = [bread_again, milk_remote]
   \<and> distinct (ids (todos (dispatch_all initialState
        [AddTodo milk, AddTodo bread, ToggleTodo ''1'', UpdateTodo bread_again, DeleteTodo ''1'',
         AddTodo milk_remote, UpdateTodo tea])))"
proof -
  have h1: "distinct (ids (todos initialState))" by (simp add: initialState_def)
  have h2: "fresh_crud_run initialState
        [AddTodo milk, AddTodo bread, ToggleTodo ''1'', UpdateTodo bread_again, DeleteTodo ''1'',
         AddTodo milk_remote, UpdateTodo tea]"
    by (simp add: initialState_def addTodo_def updateTodo_def deleteTodo_def toggleTodo_def
        milk_def bread_def bread_again_def milk_remote_def tea_def)
  have v: "todos (dispatch_all initialState
        [AddTodo milk, AddTodo bread, ToggleTodo ''1'', UpdateTodo bread_again, DeleteTodo ''1'',
         AddTodo milk_remote, UpdateTodo tea]) = [bread_again, milk_remote]"
    by (simp add: dispatch_all_def initialState_def addTodo_def updateTodo_def deleteTodo_def
        toggleTodo_def milk_def bread_def bread_again_def milk_remote_def tea_def)
  from crud_keeps_ids_unique [OF h1 h2, rule_format, of 7] h1 h2 v show ?thesis by simp
qed

section \<open>The fetch trigger\<close>

lemma dispatch_all_simps:
  "dispatch_all s [] = s"
  "dispatch_all s (a # as) = dispatch_all (reducer s a) as"
  by (simp_all add: dispatch_all_def)

text \<open>
  C4. The handler dispatches, in this order: loading on, error cleared, then (after the
  fetch) the merge of the fetched entities when the fetch resolved or the error message when
  it threw, and loading off. Loading is switched off exactly once in either case. Run on a
  state, a resolved fetch gives the merged state with loading off and no error; a failed
  fetch gives the input state with loading off and the message as error, so the collection
  is as it was. Whatever else is dispatched during the wait, the actions of the failure
  path leave the collection as they find it, and loading is off at the end.
\<close>

theorem handleFetchTodos_sequence:
  "handleFetchTodos_dispatches (Inr fetched)
     = [SetLoading True, SetError None, MergeTodos fetched, SetLoading False]
   \<and> handleFetchTodos_dispatches (Inl err)
     = [SetLoading True, SetError None, SetError (Some (caught_message err)), SetLoading False]
   \<and> count_list (handleFetchTodos_dispatches outcome) (SetLoading False) = 1
   \<and> dispatch_all s handleFetchTodos_before = s\<lparr>isLoading := True, error := None\<rparr>
   \<and> handleFetchTodos s (Inr fetched)
     = (mergeTodos s fetched)\<lparr>isLoading := False, error := None\<rparr>
   \<and> handleFetchTodos s (Inl err)
     = s\<lparr>isLoading := False, error := Some (caught_message err)\<rparr>
   \<and> todos (handleFetchTodos s (Inl err)) = todos s
   \<and> todos (handleFetchTodos_during s others (Inl err))
     = todos (dispatch_all (dispatch_all s handleFetchTodos_before) others)
   \<and> isLoading (handleFetchTodos_during s others outcome) = False"
proof (intro conjI)
  show "handleFetchTodos_dispatches (Inr fetched)
     = [SetLoading True, SetError None, MergeTodos fetched, SetLoading False]"
    by (simp add: handleFetchTodos_dispatches_def handleFetchTodos_before_def)
  show "handleFetchTodos_dispatches (Inl err)
     = [SetLoading True, SetError None, SetError (Some (caught_message err)), SetLoading False]"
    by (simp add: handleFetchTodos_dispatches_def handleFetchTodos_before_def)
  show "count_list (handleFetchTodos_dispatches outcome) (SetLoading False) = 1"
    by (cases outcome) (simp_all add: handleFetchTodos_dispatches_def handleFetchTodos_before_def)
  show "dispatch_all s handleFetchTodos_before = s\<lparr>isLoading := True, error := None\<rparr>"
    by (simp add: handleFetchTodos_before_def dispatch_all_simps setLoading_def setError_def)
  show "handleFetchTodos s (Inr fetched)
     = (mergeTodos s fetched)\<lparr>isLoading := False, error := None\<rparr>"
    by (simp add: handleFetchTodos_def handleFetchTodos_dispatches_def handleFetchTodos_before_def
        dispatch_all_simps setLoading_def setError_def mergeTodos_eq)
  show f: "handleFetchTodos s (Inl err)
     = s\<lparr>isLoading := False, error := Some (caught_message err)\<rparr>"
    by (simp add: handleFetchTodos_def handleFetchTodos_dispatches_def handleFetchTodos_before_def
        dispatch_all_simps setLoading_def setError_def)
  show "todos (handleFetchTodos s (Inl err)) = todos s"
    by (simp add: f)
  show "todos (handleFetchTodos_during s others (Inl err))
     = todos (dispatch_all (dispatch_all s handleFetchTodos_before) others)"
    by (simp add: handleFetchTodos_during_def dispatch_all_simps setLoading_def setError_def)
  show "isLoading (handleFetchTodos_during s others outcome) = False"
    by (cases outcome)
      (simp_all add: handleFetchTodos_during_def dispatch_all_simps setLoading_def setError_def
        mergeTodos_eq)
qed

section \<open>The filter step\<close>







text \<open>
  Where lower-casing works character by character, as it does on ASCII strings, the
  criterion says that some substring of the field is the query up to case.
\<close>

lemma contains_ignoring_case_charwise:
  "contains_ignoring_case (map f) field q
     \<longleftrightarrow> (\<exists>pre u post. field = pre @ u @ post \<and> map f u = map f q)"
proof
  assume "contains_ignoring_case (map f) field q"
  then obtain pre post where "map f field = pre @ map f q @ post"
    unfolding contains_ignoring_case_def by blast
  then have "\<exists>us vs. field = us @ vs \<and> pre = map f us \<and> map f q @ post = map f vs"
    by (simp only: map_eq_append_conv)
  then obtain a bc where 1: "field = a @ bc" and 2: "map f q @ post = map f bc" by blast
  from 2 have "\<exists>us vs. bc = us @ vs \<and> map f q = map f us \<and> post = map f vs"
    by (simp only: append_eq_map_conv)
  then obtain b c where 3: "bc = b @ c" and 4: "map f b = map f q" by metis
  from 1 3 4 have "field = a @ b @ c \<and> map f b = map f q" by simp
  then show "\<exists>pre u post. field = pre @ u @ post \<and> map f u = map f q" by blast
next
  assume "\<exists>pre u post. field = pre @ u @ post \<and> map f u = map f q"
  then obtain pre u post where "field = pre @ u @ post" and "map f u = map f q" by blast
  then have "map f field = map f pre @ map f q @ map f post" by simp
  then show "contains_ignoring_case (map f) field q"
    unfolding contains_ignoring_case_def by blast
qed



section \<open>The mapping of remote records\<close>

text \<open>
  A failed request is passed on. Of a received record the id is written in decimal, the
  title becomes the name, the completion flag is copied and the owner is dropped; the
  description is empty, the due date is the part of the clock's ISO string before \<open>T\<close>,
  and the due time is the constant \<^verbatim>\<open>00:00\<close>.
\<close>

lemma fetchTodos_maps_records:
  "fetchTodos clock (Inl err) = Inl err"
  "fetchTodos clock (Inr data) =
     Inr (map (\<lambda>i. \<lparr>id_todo = Number_toString (id_api (data ! i)),
                     name = title (data ! i),
                     description = [],
                     dueDate = split_T_0 (clock i),
                     dueTime = ''00:00'',
                     completed = completed_api (data ! i)\<rparr>) [0..<length data])"
  by (auto simp: fetchTodos_def enumerate_eq_zip intro!: nth_equalityI)

text \<open>
  C8. On the first record of the remote list, fetched on 2026-11-01, the entity has the id,
  name, flag, empty description and date the claim describes; its due time is \<^verbatim>\<open>00:00\<close>,
  five characters, hours and minutes only, and not of the shape \<^verbatim>\<open>HH:MM:SS\<close> that
  \<^verbatim>\<open>00:00:00\<close> has.
\<close>

theorem fetchTodos_dueTime_without_seconds:
  "fetchTodos (\<lambda>i. ''2026-11-01T10:20:30.000Z'')
     (Inr [\<lparr>userId = 1, id_api = 1, title = ''delectus aut autem'', completed_api = False\<rparr>])
     = Inr [\<lparr>id_todo = ''1'', name = ''delectus aut autem'', description = [],
             dueDate = ''2026-11-01'', dueTime = ''00:00'', completed = False\<rparr>]
   \<and> \<not> is_HH_MM_SS ''00:00''
   \<and> is_HH_MM_SS ''00:00:00''"
  by code_simp

end
